theory Spec2Isabelle
  imports Main "HOL-Library.Sublist"
begin

section \<open>Strings\<close>

text \<open>
  Column labels, file names and messages are Python \<open>str\<close> values, modelled as
  \<^typ>\<open>string\<close>.  \<open>s.lower()\<close> is modelled on the ASCII letters; \<open>"rate" in s\<close> is
  the contiguous-substring test \<^const>\<open>sublist\<close>, and \<open>s.endswith(t)\<close> is \<^const>\<open>suffix\<close>.
\<close>

definition lower_char :: "char \<Rightarrow> char" where
  "lower_char c =
     (let n = (of_char c :: nat) in if 65 \<le> n \<and> n \<le> 90 then char_of (n + 32) else c)"

definition lower :: "string \<Rightarrow> string" where
  "lower s = map lower_char s"

definition digit_char :: "nat \<Rightarrow> char" where
  "digit_char d = char_of (48 + d)"

text \<open>The decimal rendering \<open>f"{idx}"\<close> of a non-negative integer.\<close>

fun str_nat :: "nat \<Rightarrow> string" where
  "str_nat n =
     (if n < 10 then [digit_char n] else str_nat (n div 10) @ [digit_char (n mod 10)])"

declare str_nat.simps [simp del]

text \<open>\<open>normalize_name(idx)\<close> returns \<open>f"Contractor_{idx}"\<close>.\<close>

definition normalize_name :: "nat \<Rightarrow> string" where
  "normalize_name idx = ''Contractor_'' @ str_nat idx"

section \<open>Tables\<close>

text \<open>
  A \<open>pandas.DataFrame\<close> is modelled by its column labels, left to right, and its rows,
  top to bottom; a row is its index label together with one cell per column.  Column
  labels are \<open>str\<close> values (the header row of a CSV file), and a label may occur more
  than once.  The index of a table that \<open>pd.merge\<close> returns is the default one, the
  positions \<open>0 .. n - 1\<close>; the index of a table that a parser returns is whatever the
  parser chose (\<open>pd.read_csv\<close> takes the first field of every line as the index label
  when the lines have one more field than the header).
\<close>

datatype cell = NaN | Num int | Str string

record table =
  columns :: "string list"
  rows :: "(cell \<times> cell list) list"

text \<open>\<open>df.index\<close>, the cells without the index, and the default index of \<open>n\<close> rows.\<close>

definition index :: "table \<Rightarrow> cell list" where
  "index df = map fst (rows df)"

definition cells :: "table \<Rightarrow> cell list list" where
  "cells df = map snd (rows df)"

definition RangeIndex :: "nat \<Rightarrow> cell list" where
  "RangeIndex n = map (\<lambda>k. Num (int k)) [0 ..< n]"

text \<open>\<open>pd.DataFrame()\<close>: no columns, no rows.\<close>

definition DataFrame :: table where
  "DataFrame = \<lparr>columns = [], rows = []\<rparr>"

text \<open>\<open>df.empty\<close>: some axis has length zero.\<close>

definition df_empty :: "table \<Rightarrow> bool" where
  "df_empty df = (columns df = [] \<or> rows df = [])"

definition nrows :: "table \<Rightarrow> nat" where
  "nrows df = length (rows df)"

text \<open>
  \<open>df.rename(columns=mapping)\<close>: every label that is a key of the mapping is replaced,
  every other label is kept; the cells are untouched.
\<close>

definition rename :: "(string \<rightharpoonup> string) \<Rightarrow> table \<Rightarrow> table" where
  "rename mapping df =
     df\<lparr>columns := map (\<lambda>c. case mapping c of None \<Rightarrow> c | Some c' \<Rightarrow> c') (columns df)\<rparr>"

section \<open>Column normalisation\<close>

text \<open>
  The loop \<open>for c in df.columns: if "rate" in c.lower(): df.rename(columns={c: "RATE"},
  inplace=True)\<close>.  It runs over the labels the table had when the loop started (the
  first argument) and renames in the current table (the second); there is no \<open>break\<close>.
\<close>

fun rate_loop :: "string list \<Rightarrow> table \<Rightarrow> table" where
  "rate_loop [] df = df"
| "rate_loop (c # cs) df =
     rate_loop cs (if sublist ''rate'' (lower c) then rename [c \<mapsto> ''RATE''] df else df)"

text \<open>
  The block of \<open>merge_contractors\<close> under the comment \<open>Standardize RATE/AMOUNT columns\<close>,
  for the file at 1-based upload position \<open>i\<close>.
\<close>

definition standardize :: "nat \<Rightarrow> table \<Rightarrow> table" where
  "standardize i df0 =
     (let contractor_name = normalize_name i;
          df = (if ''RATE'' \<notin> set (columns df0) then rate_loop (columns df0) df0 else df0);
          rename_map = Map.empty;
          rename_map = (if ''RATE'' \<in> set (columns df)
                        then rename_map(''RATE'' \<mapsto> contractor_name @ ''_RATE'')
                        else rename_map);
          rename_map = (if ''AMOUNT'' \<in> set (columns df)
                        then rename_map(''AMOUNT'' \<mapsto> contractor_name @ ''_AMOUNT'')
                        else rename_map)
      in rename rename_map df)"

section \<open>Loading\<close>

text \<open>
  An uploaded file has a name and a content.  The parsers \<open>pd.read_csv\<close> and
  \<open>pd.read_excel\<close> are parameters of the model: each maps a file to the table it
  reads, or to the text of the exception it raises.  What the application shows with
  \<open>st.error\<close>, \<open>st.warning\<close> and \<open>st.success\<close> is returned as a list of messages, in the
  order shown.
\<close>

record uploaded_file =
  name :: string
  content :: string

type_synonym reader = "uploaded_file \<Rightarrow> string + table"

datatype message = Error string | Warning string | Success string

definition load_table :: "reader \<Rightarrow> reader \<Rightarrow> uploaded_file \<Rightarrow> message list \<times> table" where
  "load_table read_csv read_excel file =
     (case (if suffix ''.csv'' (lower (name file)) then read_csv file else read_excel file) of
        Inr df \<Rightarrow> ([], df)
      | Inl e \<Rightarrow> ([Error (''Could not read '' @ name file @ '': '' @ e)], DataFrame))"

text \<open>
  The first loop of \<open>merge_contractors\<close>: \<open>i\<close> is the counter of \<open>enumerate(files,
  start=1)\<close>, the state is the messages shown so far and the list \<open>frames\<close>.
\<close>

fun frames_loop ::
  "reader \<Rightarrow> reader \<Rightarrow> nat \<Rightarrow> uploaded_file list \<Rightarrow> message list \<times> table list
    \<Rightarrow> message list \<times> table list" where
  "frames_loop read_csv read_excel i [] st = st"
| "frames_loop read_csv read_excel i (f # fs) (msgs, frames) =
     (let (m, df) = load_table read_csv read_excel f in
      if df_empty df then frames_loop read_csv read_excel (Suc i) fs (msgs @ m, frames)
      else frames_loop read_csv read_excel (Suc i) fs (msgs @ m, frames @ [standardize i df]))"

section \<open>Joining\<close>

text \<open>The key list of one fold step, for the three match modes.\<close>

definition step_keys :: "string \<Rightarrow> table \<Rightarrow> table \<Rightarrow> string list" where
  "step_keys mode combined part =
     (if mode = ''ITEM + DESCRIPTION'' then
        filter (\<lambda>k. k \<in> set (columns combined) \<and> k \<in> set (columns part))
          [''ITEM'', ''DESCRIPTION'']
      else if mode = ''DESCRIPTION only'' then
        (if ''DESCRIPTION'' \<in> set (columns combined) \<and> ''DESCRIPTION'' \<in> set (columns part)
         then [''DESCRIPTION''] else [])
      else
        (if ''ITEM'' \<in> set (columns combined) \<and> ''ITEM'' \<in> set (columns part)
         then [''ITEM''] else []))"

text \<open>
  \<open>pd.merge(left, right, on=keys, how="outer")\<close>, the full outer join.  Two rows match
  when their cells agree in every key column; a missing key matches a missing key.
  Every pair of matching rows gives one row of the result, a row of either side with no
  match gives one row with \<^const>\<open>NaN\<close> in the other side's columns.  The result has
  the left columns followed by the right columns that are not keys; a label that both
  sides have outside the keys gets the suffix \<open>_x\<close> on the left and \<open>_y\<close> on the right.
  pandas sorts the rows of an outer join by key; the model lists them in the order of
  the left table followed by the unmatched rows of the right one, which is the same
  rows in another order.  The index labels of the two sides play no part, and the
  result carries the default index.  The model describes a merge that pandas carries out: pandas
  raises, and \<open>merge_contractors\<close> with it, when the key columns of the two sides have
  incompatible types or when the suffixes would produce a label twice.
\<close>

definition cell_at :: "cell list \<Rightarrow> nat \<Rightarrow> cell" where
  "cell_at r j = (if j < length r then r ! j else NaN)"

definition col_index :: "table \<Rightarrow> string \<Rightarrow> nat" where
  "col_index df k = length (takeWhile (\<lambda>c. c \<noteq> k) (columns df))"

definition key_of :: "table \<Rightarrow> string list \<Rightarrow> cell list \<Rightarrow> cell list" where
  "key_of df keys r = map (\<lambda>k. cell_at r (col_index df k)) keys"

definition drop_keys :: "table \<Rightarrow> string list \<Rightarrow> cell list \<Rightarrow> cell list" where
  "drop_keys df keys r = map snd (filter (\<lambda>p. fst p \<notin> set keys) (zip (columns df) r))"

definition matches :: "table \<Rightarrow> table \<Rightarrow> string list \<Rightarrow> cell list \<Rightarrow> cell list list" where
  "matches left right keys l =
     filter (\<lambda>r. key_of right keys r = key_of left keys l) (cells right)"

definition left_rows :: "table \<Rightarrow> table \<Rightarrow> string list \<Rightarrow> cell list \<Rightarrow> cell list list" where
  "left_rows left right keys l =
     (let ms = matches left right keys l in
      if ms = [] then [l @ replicate (length (filter (\<lambda>c. c \<notin> set keys) (columns right))) NaN]
      else map (\<lambda>r. l @ drop_keys right keys r) ms)"

definition right_only :: "table \<Rightarrow> table \<Rightarrow> string list \<Rightarrow> cell list list" where
  "right_only left right keys =
     filter (\<lambda>r. key_of right keys r \<notin> set (map (key_of left keys) (cells left))) (cells right)"

definition right_row :: "table \<Rightarrow> table \<Rightarrow> string list \<Rightarrow> cell list \<Rightarrow> cell list" where
  "right_row left right keys r =
     map (\<lambda>c. if c \<in> set keys then cell_at r (col_index right c) else NaN) (columns left)
     @ drop_keys right keys r"

definition reset_index :: "cell list list \<Rightarrow> (cell \<times> cell list) list" where
  "reset_index rs = zip (RangeIndex (length rs)) rs"

definition merge_outer :: "table \<Rightarrow> table \<Rightarrow> string list \<Rightarrow> table" where
  "merge_outer left right keys =
     (let rcols = filter (\<lambda>c. c \<notin> set keys) (columns right) in
      \<lparr>columns = map (\<lambda>c. if c \<in> set rcols then c @ ''_x'' else c) (columns left)
                 @ map (\<lambda>c. if c \<in> set (columns left) then c @ ''_y'' else c) rcols,
       rows = reset_index
                (concat (map (left_rows left right keys) (cells left))
                 @ map (right_row left right keys) (right_only left right keys))\<rparr>)"

text \<open>
  \<open>pd.concat([a, b], axis=1)\<close>: the columns of \<open>a\<close> followed by those of \<open>b\<close>, the rows
  aligned on the index labels.  When the two indexes are equal the rows are paired in
  order.  Otherwise the index of the result is the union of the two, the labels of
  \<open>a\<close> followed by the labels that only \<open>b\<close> has; the row of a label holds the cells that
  each table has under that label, and \<^const>\<open>NaN\<close> for a table that has no such label.
  pandas carries this second case out when no label occurs twice within a table, and
  raises otherwise.
\<close>

definition row_at :: "table \<Rightarrow> cell \<Rightarrow> cell list" where
  "row_at df l =
     (case map_of (rows df) l of
        Some r \<Rightarrow> r
      | None \<Rightarrow> replicate (length (columns df)) NaN)"

definition concat_axis1 :: "table \<Rightarrow> table \<Rightarrow> table" where
  "concat_axis1 a b =
     (if index a = index b then
        \<lparr>columns = columns a @ columns b,
         rows = map (\<lambda>(ra, rb). (fst ra, snd ra @ snd rb)) (zip (rows a) (rows b))\<rparr>
      else
        \<lparr>columns = columns a @ columns b,
         rows = map (\<lambda>l. (l, row_at a l @ row_at b l))
                  (index a @ filter (\<lambda>l. l \<notin> set (index a)) (index b))\<rparr>)"

text \<open>One pass of the loop \<open>for part in frames[1:]\<close>, and the loop.\<close>

definition merge_step :: "string \<Rightarrow> table \<Rightarrow> table \<Rightarrow> table" where
  "merge_step mode combined part =
     (let keys = step_keys mode combined part in
      if keys \<noteq> [] then merge_outer combined part keys else concat_axis1 combined part)"

fun merge_loop :: "string \<Rightarrow> table \<Rightarrow> table list \<Rightarrow> table" where
  "merge_loop mode combined [] = combined"
| "merge_loop mode combined (part # parts) = merge_loop mode (merge_step mode combined part) parts"

definition merge_contractors ::
  "reader \<Rightarrow> reader \<Rightarrow> uploaded_file list \<Rightarrow> string \<Rightarrow> message list \<times> table" where
  "merge_contractors read_csv read_excel files mode =
     (let (msgs, frames) = frames_loop read_csv read_excel 1 files ([], []) in
      case frames of
        [] \<Rightarrow> (msgs @ [Warning ''No valid files to merge!''], DataFrame)
      | first # rest \<Rightarrow> (msgs, merge_loop mode first rest))"

section \<open>Duplicate column labels\<close>

text \<open>
  The loop of \<open>make_columns_unique\<close>: the dictionary \<open>seen\<close> is a map from labels to
  counters, \<open>new_cols\<close> grows at its end.
\<close>

fun unique_loop :: "string list \<Rightarrow> (string \<rightharpoonup> nat) \<Rightarrow> string list \<Rightarrow> string list" where
  "unique_loop [] seen new_cols = new_cols"
| "unique_loop (col # cols) seen new_cols =
     (case seen col of
        None \<Rightarrow> unique_loop cols (seen(col \<mapsto> 0)) (new_cols @ [col])
      | Some n \<Rightarrow>
          unique_loop cols (seen(col \<mapsto> n + 1)) (new_cols @ [col @ ''_'' @ str_nat (n + 1)]))"

definition make_columns_unique :: "table \<Rightarrow> table" where
  "make_columns_unique df = df\<lparr>columns := unique_loop (columns df) Map.empty []\<rparr>"

section \<open>The run\<close>

text \<open>
  The block under \<open>if run\<close>: the messages shown, and the table that is displayed and
  offered for download, if any.  The success text is kept without the check mark that
  precedes it in the source.
\<close>

definition run_comparison ::
  "reader \<Rightarrow> reader \<Rightarrow> uploaded_file list \<Rightarrow> string \<Rightarrow> message list \<times> table option" where
  "run_comparison read_csv read_excel uploads match_mode =
     (let (msgs, result) = merge_contractors read_csv read_excel uploads match_mode in
      if \<not> df_empty result
      then (msgs @ [Success ''Files merged successfully!''], Some (make_columns_unique result))
      else (msgs @ [Warning ''No data to display.''], None))"

section \<open>Auxiliary notions of the proofs\<close>

text \<open>
  The label that \<open>make_columns_unique\<close> gives to a column labelled \<open>c\<close> that has \<open>k\<close>
  columns of the same label to its left, the dictionary \<open>seen\<close> after the labels \<open>p\<close>
  have been processed, and the labels given to \<open>cs\<close> after \<open>p\<close> has been processed.
\<close>

definition suffixed :: "string \<Rightarrow> nat \<Rightarrow> string" where
  "suffixed c k = (if k = 0 then c else c @ ''_'' @ str_nat k)"

definition seen_after :: "string list \<Rightarrow> (string \<rightharpoonup> nat)" where
  "seen_after p c = (if c \<in> set p then Some (count_list p c - 1) else None)"

fun relabel :: "string list \<Rightarrow> string list \<Rightarrow> string list" where
  "relabel p [] = []"
| "relabel p (c # cs) = suffixed c (count_list p c) # relabel (p @ [c]) cs"

text \<open>
  The test of the scan for a rate column, and the label that the normalisation of the
  file at position \<open>i\<close> gives to a column labelled \<open>c\<close> of a table with labels \<open>cols\<close>.
\<close>

definition rate_like :: "string \<Rightarrow> bool" where
  "rate_like c = sublist ''rate'' (lower c)"

definition tag :: "nat \<Rightarrow> string list \<Rightarrow> string \<Rightarrow> string" where
  "tag i cols c =
     (if c = ''RATE'' \<or> (''RATE'' \<notin> set cols \<and> rate_like c) then normalize_name i @ ''_RATE''
      else if c = ''AMOUNT'' then normalize_name i @ ''_AMOUNT'' else c)"

section \<open>Example inputs\<close>

text \<open>Concrete tables and files on which the theorems below are instantiated.\<close>

definition boq_dups :: table where
  "boq_dups = \<lparr>columns = [''UNIT'', ''QTY'', ''UNIT'', ''UNIT''], rows = [(Num 0, [Str ''m'', Num 3, Str ''m'', NaN])]\<rparr>"

definition boq_rates :: table where
  "boq_rates =
     \<lparr>columns = [''ITEM'', ''Rate'', ''Rate_USD''],
      rows = [(Num 0, [Str ''1.1'', Num 10, Num 12])]\<rparr>"

definition boq_usd :: table where
  "boq_usd =
     \<lparr>columns = [''ITEM'', ''DESCRIPTION'', ''RATE_USD'', ''AMOUNT''],
      rows = [(Num 0, [Str ''1.1'', Str ''Excavation'', Num 10, Num 250])]\<rparr>"

definition boq_norate :: table where
  "boq_norate =
     \<lparr>columns = [''ITEM'', ''QTY'', ''AMOUNT''], rows = [(Num 0, [Str ''1.1'', Num 25, Num 250])]\<rparr>"

definition items_a :: table where
  "items_a =
     \<lparr>columns = [''ITEM'', ''Contractor_1_RATE''],
      rows = [(Num 0, [Num 1, Num 10]), (Num 1, [Num 1, Num 11])]\<rparr>"

definition items_b :: table where
  "items_b =
     \<lparr>columns = [''ITEM'', ''Contractor_2_RATE''],
      rows = [(Num 0, [Num 1, Num 20]), (Num 1, [Num 1, Num 21]), (Num 2, [Num 1, Num 22])]\<rparr>"

definition items_c :: table where
  "items_c =
     \<lparr>columns = [''ITEM'', ''Contractor_2_RATE''],
      rows = [(Num 0, [Num 1, Num 20]), (Num 1, [Num 2, Num 21]), (Num 2, [Num 3, Num 22])]\<rparr>"



text \<open>
  Two readers for the examples: the CSV reader parses one known content and raises on
  any other, the workbook reader raises on every file.
\<close>

definition quote_table :: table where
  "quote_table = \<lparr>columns = [''ITEM'', ''Rate''], rows = [(Num 0, [Str ''1.1'', Num 10])]\<rparr>"

definition demo_read_csv :: reader where
  "demo_read_csv f =
     (if content f = ''ITEM,Rate;1.1,10'' then Inr quote_table
      else Inl ''No columns to parse from file'')"

definition demo_read_excel :: reader where
  "demo_read_excel f = Inl ''File is not a zip file''"

definition file_a :: uploaded_file where
  "file_a = \<lparr>name = ''a.csv'', content = ''ITEM,Rate;1.1,10''\<rparr>"

definition file_b :: uploaded_file where
  "file_b = \<lparr>name = ''b.xlsx'', content = ''ITEM,Rate;1.1,10''\<rparr>"

definition file_c :: uploaded_file where
  "file_c = \<lparr>name = ''C.CSV'', content = ''ITEM,Rate;1.1,10''\<rparr>"

definition file_d :: uploaded_file where
  "file_d = \<lparr>name = ''d.csv'', content = []\<rparr>"

text \<open>A reader that returns a table with the labels \<open>UNIT, UNIT_1\<close>, and two uploads.\<close>

definition units_table :: table where
  "units_table =
     \<lparr>columns = [''UNIT'', ''UNIT_1''], rows = [(Num 0, [Str ''m'', Str ''m2''])]\<rparr>"

definition units_read_csv :: reader where
  "units_read_csv f = Inr units_table"

definition file_u1 :: uploaded_file where
  "file_u1 = \<lparr>name = ''u1.csv'', content = ''UNIT,UNIT_1;m,m2''\<rparr>"

definition file_u2 :: uploaded_file where
  "file_u2 = \<lparr>name = ''u2.csv'', content = ''UNIT,UNIT_1;m,m2''\<rparr>"

section \<open>The loop of \<open>make_columns_unique\<close>\<close>

lemma count_list_pos: "c \<in> set p \<Longrightarrow> 0 < count_list p c"
  using count_list_0_iff [of p c] by auto

lemma seen_after_Nil: "seen_after [] = Map.empty"
  by (rule ext) (simp add: seen_after_def)

lemma seen_after_new: "c \<notin> set p \<Longrightarrow> (seen_after p)(c \<mapsto> 0) = seen_after (p @ [c])"
  by (rule ext) (auto simp: seen_after_def)

lemma seen_after_old:
  "c \<in> set p \<Longrightarrow> (seen_after p)(c \<mapsto> count_list p c - 1 + 1) = seen_after (p @ [c])"
  using count_list_pos [of c p] by (intro ext) (auto simp: seen_after_def)

text \<open>The loop invariant: \<open>seen\<close> counts the labels processed so far.\<close>

lemma unique_loop_relabel:
  "unique_loop cols (seen_after p) acc = acc @ relabel p cols"
proof (induction cols arbitrary: p acc)
  case Nil
  then show ?case by simp
next
  case (Cons c cs)
  show ?case
  proof (cases "c \<in> set p")
    case False
    then have "seen_after p c = None" by (simp add: seen_after_def)
    moreover have "count_list p c = 0" using False by (simp add: count_list_0_iff)
    ultimately show ?thesis
      using Cons.IH [of "p @ [c]" "acc @ [c]"] False
      by (simp add: seen_after_new suffixed_def)
  next
    case True
    then have s: "seen_after p c = Some (count_list p c - 1)" by (simp add: seen_after_def)
    have pos: "0 < count_list p c" using True by (rule count_list_pos)
    then have k: "count_list p c - 1 + 1 = count_list p c" by simp
    show ?thesis
      using Cons.IH [of "p @ [c]" "acc @ [c @ ''_'' @ str_nat (count_list p c)]"] pos
        seen_after_old [OF True]
      by (simp add: s k suffixed_def)
  qed
qed

lemma length_relabel: "length (relabel p cs) = length cs"
  by (induction cs arbitrary: p) auto

lemma nth_relabel:
  "j < length cs \<Longrightarrow> relabel p cs ! j = suffixed (cs ! j) (count_list (p @ take j cs) (cs ! j))"
proof (induction cs arbitrary: p j)
  case Nil
  then show ?case by simp
next
  case (Cons c cs)
  then show ?case by (cases j) auto
qed

lemma prefix_suffixed: "prefix c (suffixed c k)"
  by (simp add: suffixed_def)

lemma list_all2_relabel: "list_all2 prefix cs (relabel p cs)"
  by (induction cs arbitrary: p) (auto simp: prefix_suffixed)

lemma columns_make_columns_unique:
  "columns (make_columns_unique df) = relabel [] (columns df)"
  using unique_loop_relabel [of "columns df" "[]" "[]"]
  by (simp add: make_columns_unique_def seen_after_Nil)

text \<open>
  Claim C10.  \<open>make_columns_unique\<close> changes nothing but the labels: the rows (and so
  the row count and every cell) are those of the input, there are as many columns as
  before, and the column at each position keeps its place: its new label starts with
  its old one.
\<close>

theorem make_columns_unique_frame:
  "rows (make_columns_unique df) = rows df \<and>
   nrows (make_columns_unique df) = nrows df \<and>
   length (columns (make_columns_unique df)) = length (columns df) \<and>
   list_all2 prefix (columns df) (columns (make_columns_unique df))"
  by (simp add: columns_make_columns_unique length_relabel list_all2_relabel)
    (simp add: make_columns_unique_def nrows_def)

section \<open>The labels that \<open>make_columns_unique\<close> gives\<close>

lemma of_char_digit_char: "d < 10 \<Longrightarrow> of_char (digit_char d) = 48 + d"
  by (simp add: digit_char_def)

text \<open>
  The naming rule of the loop: a column whose label does not occur to its left keeps
  its label, and a column whose label \<open>X\<close> occurs \<open>k > 0\<close> times to its left is labelled
  \<open>X_k\<close>.
\<close>

lemma make_columns_unique_naming:
  "length (columns (make_columns_unique df)) = length (columns df) \<and>
   (\<forall>j<length (columns df).
      (count_list (take j (columns df)) (columns df ! j) = 0 \<longrightarrow>
         columns (make_columns_unique df) ! j = columns df ! j) \<and>
      (0 < count_list (take j (columns df)) (columns df ! j) \<longrightarrow>
         columns (make_columns_unique df) ! j =
           columns df ! j @ ''_'' @ str_nat (count_list (take j (columns df)) (columns df ! j))))"
proof (intro conjI allI impI)
  show "length (columns (make_columns_unique df)) = length (columns df)"
    by (simp add: columns_make_columns_unique length_relabel)
next
  fix j
  assume "j < length (columns df)" "count_list (take j (columns df)) (columns df ! j) = 0"
  then show "columns (make_columns_unique df) ! j = columns df ! j"
    by (simp add: columns_make_columns_unique nth_relabel suffixed_def)
next
  fix j
  assume "j < length (columns df)" "0 < count_list (take j (columns df)) (columns df ! j)"
  then show "columns (make_columns_unique df) ! j =
    columns df ! j @ ''_'' @ str_nat (count_list (take j (columns df)) (columns df ! j))"
    by (simp add: columns_make_columns_unique nth_relabel suffixed_def)
qed

lemma make_columns_unique_boq_dups:
  "columns (make_columns_unique boq_dups) = [''UNIT'', ''QTY'', ''UNIT_1'', ''UNIT_2'']"
  unfolding boq_dups_def by code_simp

text \<open>
  Claim C5.  The name of \<open>make_columns_unique\<close>, its docstring and the comment where
  it is called say that the labels it returns are pairwise distinct, as the claim
  does.  The loop follows the naming rule of the claim but never compares a label it
  generates with the labels that are already there: the labels \<open>UNIT, UNIT_1, UNIT\<close>
  come back as \<open>UNIT, UNIT_1, UNIT_1\<close>.  A run reaches this: two uploads with the
  labels \<open>UNIT, UNIT_1\<close> have no key column, are set side by side, and the table that
  is displayed has the label \<open>UNIT_1\<close> twice.
\<close>

theorem make_columns_unique_collision:
  "columns (make_columns_unique
      \<lparr>columns = [''UNIT'', ''UNIT_1'', ''UNIT''],
       rows = [(Num 0, [Str ''m'', Str ''m2'', Str ''m''])]\<rparr>)
     = [''UNIT'', ''UNIT_1'', ''UNIT_1''] \<and>
   \<not> distinct (columns (make_columns_unique
      \<lparr>columns = [''UNIT'', ''UNIT_1'', ''UNIT''],
       rows = [(Num 0, [Str ''m'', Str ''m2'', Str ''m''])]\<rparr>)) \<and>
   map_option columns
      (snd (run_comparison units_read_csv demo_read_excel [file_u1, file_u2] ''ITEM + DESCRIPTION''))
     = Some [''UNIT'', ''UNIT_1'', ''UNIT_1'', ''UNIT_1_1'']"
  unfolding file_u1_def file_u2_def by code_simp

section \<open>Column normalisation: the scan and the retagging\<close>

lemma rows_rename [simp]: "rows (rename m df) = rows df"
  by (simp add: rename_def)

lemma columns_rename:
  "columns (rename m df) = map (\<lambda>c. case m c of None \<Rightarrow> c | Some c' \<Rightarrow> c') (columns df)"
  by (simp add: rename_def)

lemma rows_rate_loop [simp]: "rows (rate_loop cs df) = rows df"
  by (induction cs arbitrary: df) auto

lemma columns_rate_loop:
  "columns (rate_loop cs df) =
     map (\<lambda>x. if x \<in> set cs \<and> rate_like x then ''RATE'' else x) (columns df)"
proof (induction cs arbitrary: df)
  case Nil
  then show ?case by simp
next
  case (Cons c cs)
  show ?case
  proof (cases "rate_like c")
    case True
    then have "columns (rate_loop (c # cs) df) =
      map (\<lambda>x. if x \<in> set cs \<and> rate_like x then ''RATE'' else x)
        (map (\<lambda>x. if x = c then ''RATE'' else x) (columns df))"
      using Cons.IH [of "rename [c \<mapsto> ''RATE''] df"]
      by (simp add: rate_like_def columns_rename o_def)
    also have "\<dots> = map (\<lambda>x. if x \<in> set (c # cs) \<and> rate_like x then ''RATE'' else x) (columns df)"
      using True by auto
    finally show ?thesis .
  next
    case False
    then have "columns (rate_loop (c # cs) df) =
      map (\<lambda>x. if x \<in> set cs \<and> rate_like x then ''RATE'' else x) (columns df)"
      using Cons.IH [of df] by (simp add: rate_like_def)
    also have "\<dots> = map (\<lambda>x. if x \<in> set (c # cs) \<and> rate_like x then ''RATE'' else x) (columns df)"
      using False by auto
    finally show ?thesis .
  qed
qed

lemma columns_rate_scan:
  "columns (rate_loop (columns df) df) = map (\<lambda>x. if rate_like x then ''RATE'' else x) (columns df)"
  by (simp add: columns_rate_loop cong: map_cong)

lemma rate_like_RATE: "rate_like ''RATE''"
  unfolding rate_like_def by code_simp

lemma not_rate_like_AMOUNT: "\<not> rate_like ''AMOUNT''"
  unfolding rate_like_def by code_simp

lemma rows_standardize [simp]: "rows (standardize i df) = rows df"
  by (simp add: standardize_def Let_def)

lemma columns_standardize: "columns (standardize i df) = map (tag i (columns df)) (columns df)"
proof (cases "''RATE'' \<in> set (columns df)")
  case True
  show ?thesis
  proof (cases "''AMOUNT'' \<in> set (columns df)")
    case a: True
    show ?thesis using True a
      by (simp add: standardize_def Let_def columns_rename tag_def)
  next
    case a: False
    then have "\<And>c. c \<in> set (columns df) \<Longrightarrow> c \<noteq> ''AMOUNT''" by auto
    then show ?thesis using True a
      by (simp add: standardize_def Let_def columns_rename tag_def cong: map_cong)
  qed
next
  case False
  let ?df = "rate_loop (columns df) df"
  have cols: "columns ?df = map (\<lambda>x. if rate_like x then ''RATE'' else x) (columns df)"
    by (rule columns_rate_scan)
  have r: "''RATE'' \<in> set (columns ?df) \<longleftrightarrow> (\<exists>c\<in>set (columns df). rate_like c)"
    using False by (auto simp: cols)
  have a: "''AMOUNT'' \<in> set (columns ?df) \<longleftrightarrow> ''AMOUNT'' \<in> set (columns df)"
    using not_rate_like_AMOUNT by (auto simp: cols image_iff)
  have st: "columns (standardize i df) =
    map (\<lambda>c. case ((if ''RATE'' \<in> set (columns ?df)
                     then Map.empty(''RATE'' \<mapsto> normalize_name i @ ''_RATE'') else Map.empty)
                  ++ (if ''AMOUNT'' \<in> set (columns ?df)
                     then [''AMOUNT'' \<mapsto> normalize_name i @ ''_AMOUNT''] else Map.empty)) c of
               None \<Rightarrow> c | Some c' \<Rightarrow> c') (columns ?df)"
    using False by (auto simp: standardize_def Let_def columns_rename)
  show ?thesis
    unfolding st cols map_map
  proof (rule map_cong [OF refl])
    fix c assume c: "c \<in> set (columns df)"
    show "((\<lambda>c. case ((if ''RATE'' \<in> set (map (\<lambda>x. if rate_like x then ''RATE'' else x) (columns df))
                     then Map.empty(''RATE'' \<mapsto> normalize_name i @ ''_RATE'') else Map.empty)
                  ++ (if ''AMOUNT'' \<in> set (map (\<lambda>x. if rate_like x then ''RATE'' else x) (columns df))
                     then [''AMOUNT'' \<mapsto> normalize_name i @ ''_AMOUNT''] else Map.empty)) c of
               None \<Rightarrow> c | Some c' \<Rightarrow> c') \<circ> (\<lambda>x. if rate_like x then ''RATE'' else x)) c
          = tag i (columns df) c"
      using c False r a not_rate_like_AMOUNT unfolding cols [symmetric]
      by (auto simp: tag_def)
  qed
qed


lemma set_str_nat: "c \<in> set (str_nat n) \<Longrightarrow> \<exists>d<10. c = digit_char d"
proof (induction n rule: str_nat.induct)
  case (1 n)
  show ?case
  proof (cases "n < 10")
    case True
    then show ?thesis using "1.prems" by (subst (asm) str_nat.simps) auto
  next
    case False
    then have "c \<in> set (str_nat (n div 10)) \<or> c = digit_char (n mod 10)"
      using "1.prems" by (subst (asm) str_nat.simps) auto
    then show ?thesis
    proof
      assume "c \<in> set (str_nat (n div 10))"
      then show ?thesis using "1.IH" False by simp
    next
      assume "c = digit_char (n mod 10)"
      then show ?thesis by (intro exI [of _ "n mod 10"]) simp
    qed
  qed
qed

lemma lower_char_digit: "d < 10 \<Longrightarrow> lower_char (digit_char d) = digit_char d"
  by (simp add: lower_char_def of_char_digit_char)

lemma lower_str_nat: "lower (str_nat n) = str_nat n"
  unfolding lower_def using set_str_nat lower_char_digit by (intro map_idI) blast

lemma lower_append: "lower (a @ b) = lower a @ lower b"
  by (simp add: lower_def)

lemma r_notin_str_nat: "CHR ''r'' \<notin> set (str_nat n)"
proof
  assume "CHR ''r'' \<in> set (str_nat n)"
  then obtain d where d: "d < 10" "CHR ''r'' = digit_char d" using set_str_nat by blast
  have "(of_char (digit_char d) :: nat) = 48 + d" using d(1) by (rule of_char_digit_char)
  moreover have "(of_char (CHR ''r'') :: nat) = 114" by simp
  ultimately show False using d by simp
qed

lemma lower_contractor: "lower ''Contractor_'' = ''contractor_''"
  by code_simp

lemma lower_amount: "lower ''_AMOUNT'' = ''_amount''"
  by code_simp

lemma lower_rate: "lower ''_RATE'' = ''_rate''"
  by code_simp

lemma not_rate_like_amount_label: "\<not> rate_like (normalize_name i @ ''_AMOUNT'')"
proof
  assume "rate_like (normalize_name i @ ''_AMOUNT'')"
  then have "sublist ''rate'' (''contractor_'' @ str_nat i @ ''_amount'')"
    by (simp only: rate_like_def normalize_name_def lower_append lower_contractor lower_amount
        lower_str_nat append_assoc)
  then have "sublist ''rate'' (str_nat i @ ''_amount'')"
    by (simp add: sublist_Cons_right prefix_Cons)
  then have "set ''rate'' \<subseteq> set (str_nat i @ ''_amount'')"
    by (rule set_mono_sublist)
  then show False using r_notin_str_nat [of i] by simp
qed

lemma rate_like_rate_label: "rate_like (normalize_name k @ ''_RATE'')"
proof -
  have "sublist ''rate'' ((lower (normalize_name k) @ ''_'') @ ''rate'' @ [])"
    by (rule sublist_appendI)
  then show ?thesis by (simp add: rate_like_def lower_append lower_rate)
qed

lemma rate_label_neq_amount_label: "normalize_name k @ ''_RATE'' \<noteq> normalize_name i @ ''_AMOUNT''"
  using rate_like_rate_label [of k] not_rate_like_amount_label [of i] by auto

lemma tag_not_rate_like:
  assumes "\<not> rate_like c"
  shows "\<not> rate_like (tag i cols c)"
  using assms rate_like_RATE not_rate_like_amount_label by (auto simp: tag_def)



text \<open>
  Claim C3, as the code has it.  On a table with no column labelled \<open>RATE\<close>, the scan
  renames to \<open>RATE\<close> every column whose label contains \<open>rate\<close> in any letter case, the
  first one and every later one, and leaves the other labels and all rows as they
  are; each of these columns ends as \<open>Contractor_i_RATE\<close>.
\<close>

theorem rate_scan_renames_every_match:
  "''RATE'' \<notin> set (columns df) \<longrightarrow>
     columns (rate_loop (columns df) df) =
       map (\<lambda>c. if sublist ''rate'' (lower c) then ''RATE'' else c) (columns df) \<and>
     rows (rate_loop (columns df) df) = rows df \<and>
     (\<forall>j<length (columns df). sublist ''rate'' (lower (columns df ! j)) \<longrightarrow>
        columns (standardize i df) ! j = ''Contractor_'' @ str_nat i @ ''_RATE'')"
proof (intro impI conjI allI)
  show "columns (rate_loop (columns df) df) =
       map (\<lambda>c. if sublist ''rate'' (lower c) then ''RATE'' else c) (columns df)"
    using columns_rate_scan [of df] by (simp add: rate_like_def)
next
  show "rows (rate_loop (columns df) df) = rows df" by simp
next
  fix j
  assume "''RATE'' \<notin> set (columns df)" "j < length (columns df)"
    "sublist ''rate'' (lower (columns df ! j))"
  then show "columns (standardize i df) ! j = ''Contractor_'' @ str_nat i @ ''_RATE''"
    by (simp add: columns_standardize tag_def rate_like_def normalize_name_def)
qed

theorem rate_scan_renames_every_match_witness:
  "''RATE'' \<notin> set (columns boq_rates) \<and>
   columns (rate_loop (columns boq_rates) boq_rates) = [''ITEM'', ''RATE'', ''RATE''] \<and>
   sublist ''rate'' (lower (columns boq_rates ! 2)) \<and>
   columns (standardize 1 boq_rates) ! 2 = ''Contractor_1_RATE''"
proof -
  have h: "''RATE'' \<notin> set (columns boq_rates)" by (simp add: boq_rates_def)
  have l: "(2::nat) < length (columns boq_rates)" by (simp add: boq_rates_def)
  have m: "sublist ''rate'' (lower (columns boq_rates ! 2))"
    unfolding boq_rates_def by code_simp
  have e: "map (\<lambda>c. if sublist ''rate'' (lower c) then ''RATE'' else c) (columns boq_rates)
    = [''ITEM'', ''RATE'', ''RATE'']"
    unfolding boq_rates_def by code_simp
  have s: "''Contractor_'' @ str_nat 1 @ ''_RATE'' = ''Contractor_1_RATE''" by code_simp
  note t = rate_scan_renames_every_match [of boq_rates 1, rule_format, OF h]
  have "columns (rate_loop (columns boq_rates) boq_rates) = [''ITEM'', ''RATE'', ''RATE'']"
    using t [THEN conjunct1] e by simp
  moreover have "columns (standardize 1 boq_rates) ! 2 = ''Contractor_1_RATE''"
    using t [THEN conjunct2, THEN conjunct2, rule_format, OF l m] s by simp
  ultimately show ?thesis using h m by simp
qed


text \<open>
  Claim C3 as stated fails: with the labels \<open>ITEM, Rate, Rate_USD\<close> the scan renames
  two columns, and the later match \<open>Rate_USD\<close> does not keep its name.
\<close>

theorem rate_scan_first_only_counterexample:
  "''RATE'' \<notin> set (columns boq_rates) \<and>
   columns (rate_loop (columns boq_rates) boq_rates) = [''ITEM'', ''RATE'', ''RATE''] \<and>
   columns (standardize 1 boq_rates) = [''ITEM'', ''Contractor_1_RATE'', ''Contractor_1_RATE'']"
  unfolding boq_rates_def by code_simp


text \<open>
  Claim C4.  For the table at upload position \<open>i\<close>: a column labelled \<open>Rate\<close>,
  \<open>rate\<close>, \<open>RATE\<close> or \<open>RATE_USD\<close> that is the only column whose label contains
  \<open>rate\<close> becomes \<open>Contractor_i_RATE\<close>; a column labelled \<open>AMOUNT\<close> becomes
  \<open>Contractor_i_AMOUNT\<close>; and when no label contains \<open>rate\<close>, no label of the
  result does, so there is no column \<open>RATE\<close> and no column \<open>Contractor_k_RATE\<close>.
  The number of columns and the rows are unchanged.
\<close>

theorem standardize_rate_amount:
  "(\<forall>j<length (columns df).
      columns df ! j \<in> {''Rate'', ''rate'', ''RATE'', ''RATE_USD''} \<and>
      (\<forall>j'<length (columns df). j' \<noteq> j \<longrightarrow> \<not> sublist ''rate'' (lower (columns df ! j'))) \<longrightarrow>
      columns (standardize i df) ! j = ''Contractor_'' @ str_nat i @ ''_RATE'') \<and>
   (\<forall>j<length (columns df). columns df ! j = ''AMOUNT'' \<longrightarrow>
      columns (standardize i df) ! j = ''Contractor_'' @ str_nat i @ ''_AMOUNT'') \<and>
   ((\<forall>c\<in>set (columns df). \<not> sublist ''rate'' (lower c)) \<longrightarrow>
      (\<forall>c\<in>set (columns (standardize i df)). \<not> sublist ''rate'' (lower c)) \<and>
      ''RATE'' \<notin> set (columns (standardize i df)) \<and>
      (\<forall>k. ''Contractor_'' @ str_nat k @ ''_RATE'' \<notin> set (columns (standardize i df)))) \<and>
   length (columns (standardize i df)) = length (columns df) \<and>
   rows (standardize i df) = rows df"
proof (intro conjI allI impI ballI)
  fix j
  assume j: "j < length (columns df)"
    and h: "columns df ! j \<in> {''Rate'', ''rate'', ''RATE'', ''RATE_USD''} \<and>
      (\<forall>j'<length (columns df). j' \<noteq> j \<longrightarrow> \<not> sublist ''rate'' (lower (columns df ! j')))"
  have names: "rate_like ''Rate''" "rate_like ''rate''" "rate_like ''RATE''" "rate_like ''RATE_USD''"
    unfolding rate_like_def by code_simp+
  have rl: "rate_like (columns df ! j)" using h names by auto
  have "columns df ! j = ''RATE'' \<or> ''RATE'' \<notin> set (columns df)"
  proof (rule disjCI)
    assume "\<not> ''RATE'' \<notin> set (columns df)"
    then obtain j' where j': "j' < length (columns df)" "columns df ! j' = ''RATE''"
      by (auto simp: in_set_conv_nth)
    then have "j' = j" using h names(3) by (auto simp: rate_like_def)
    then show "columns df ! j = ''RATE''" using j' by simp
  qed
  then show "columns (standardize i df) ! j = ''Contractor_'' @ str_nat i @ ''_RATE''"
    using j rl by (auto simp: columns_standardize tag_def normalize_name_def)
next
  fix j
  assume "j < length (columns df)" "columns df ! j = ''AMOUNT''"
  then show "columns (standardize i df) ! j = ''Contractor_'' @ str_nat i @ ''_AMOUNT''"
    using not_rate_like_AMOUNT by (simp add: columns_standardize tag_def normalize_name_def)
next
  assume n: "\<forall>c\<in>set (columns df). \<not> sublist ''rate'' (lower c)"
  then have out: "\<not> rate_like c" if "c \<in> set (columns (standardize i df))" for c
    using that tag_not_rate_like by (auto simp: columns_standardize rate_like_def)
  {
    fix c assume "c \<in> set (columns (standardize i df))"
    then show "\<not> sublist ''rate'' (lower c)" using out by (simp add: rate_like_def)
  }
  show "''RATE'' \<notin> set (columns (standardize i df))"
    using out rate_like_RATE by blast
  {
    fix k
    show "''Contractor_'' @ str_nat k @ ''_RATE'' \<notin> set (columns (standardize i df))"
      using out rate_like_rate_label [of k] by (auto simp: normalize_name_def)
  }
next
  show "length (columns (standardize i df)) = length (columns df)"
    by (simp add: columns_standardize)
next
  show "rows (standardize i df) = rows df" by simp
qed

theorem standardize_rate_amount_witness:
  "(2::nat) < length (columns boq_usd) \<and>
   columns boq_usd ! 2 = ''RATE_USD'' \<and>
   columns (standardize 2 boq_usd) ! 2 = ''Contractor_2_RATE'' \<and>
   columns boq_usd ! 3 = ''AMOUNT'' \<and>
   columns (standardize 2 boq_usd) ! 3 = ''Contractor_2_AMOUNT'' \<and>
   ''AMOUNT'' \<in> set (columns boq_norate) \<and>
   ''Contractor_2_RATE'' \<notin> set (columns (standardize 2 boq_norate)) \<and>
   ''RATE'' \<notin> set (columns (standardize 2 boq_norate))"
proof -
  have l2: "(2::nat) < length (columns boq_usd)" and l3: "(3::nat) < length (columns boq_usd)"
    by (simp_all add: boq_usd_def)
  have c2: "columns boq_usd ! 2 = ''RATE_USD''" and c3: "columns boq_usd ! 3 = ''AMOUNT''"
    by (simp_all add: boq_usd_def)
  have nr: "\<not> sublist ''rate'' (lower ''ITEM'')" "\<not> sublist ''rate'' (lower ''DESCRIPTION'')"
    "\<not> sublist ''rate'' (lower ''AMOUNT'')" "\<not> sublist ''rate'' (lower ''QTY'')"
    by code_simp+
  have only: "\<forall>j'<length (columns boq_usd). j' \<noteq> 2 \<longrightarrow>
      \<not> sublist ''rate'' (lower (columns boq_usd ! j'))"
    using nr by (auto simp: boq_usd_def less_Suc_eq nth_Cons')
  have none: "\<forall>c\<in>set (columns boq_norate). \<not> sublist ''rate'' (lower c)"
    using nr by (simp add: boq_norate_def)
  have s: "''Contractor_'' @ str_nat 2 @ ''_RATE'' = ''Contractor_2_RATE''"
    "''Contractor_'' @ str_nat 2 @ ''_AMOUNT'' = ''Contractor_2_AMOUNT''"
    by code_simp+
  note a = standardize_rate_amount [of boq_usd 2]
  note b = standardize_rate_amount [of boq_norate 2]
  note n = b [THEN conjunct2, THEN conjunct2, THEN conjunct1, THEN mp, OF none]
  have "columns (standardize 2 boq_usd) ! 2 = ''Contractor_2_RATE''"
    using a [THEN conjunct1, rule_format, OF l2] c2 only s(1) by simp
  moreover have "columns (standardize 2 boq_usd) ! 3 = ''Contractor_2_AMOUNT''"
    using a [THEN conjunct2, THEN conjunct1, rule_format, OF l3 c3] s(2) by simp
  moreover have "''Contractor_2_RATE'' \<notin> set (columns (standardize 2 boq_norate))"
    using n [THEN conjunct2, THEN conjunct2, THEN spec, of 2] s(1) by simp
  moreover have "''RATE'' \<notin> set (columns (standardize 2 boq_norate))"
    using n [THEN conjunct2, THEN conjunct1] by simp
  moreover have "''AMOUNT'' \<in> set (columns boq_norate)" by (simp add: boq_norate_def)
  ultimately show ?thesis using l2 c2 c3 by simp
qed

section \<open>Row counts of the join and of the concatenation\<close>


lemma length_cells: "length (cells df) = nrows df"
  by (simp add: cells_def nrows_def)

lemma length_RangeIndex [simp]: "length (RangeIndex n) = n"
  by (simp add: RangeIndex_def)

lemma length_reset_index [simp]: "length (reset_index rs) = length rs"
  by (simp add: reset_index_def)

lemma nrows_concat_axis1:
  "nrows (concat_axis1 a b) =
     (if index a = index b then nrows a
      else nrows a + length (filter (\<lambda>l. l \<notin> set (index a)) (index b)))"
proof (cases "index a = index b")
  case True
  then have "length (index a) = length (index b)" by simp
  then have "length (rows a) = length (rows b)" by (simp add: index_def)
  then show ?thesis using True by (simp add: concat_axis1_def nrows_def)
next
  case False
  then show ?thesis by (simp add: concat_axis1_def nrows_def index_def)
qed


lemma length_left_rows:
  "length (left_rows left right keys l) = max 1 (length (matches left right keys l))"
  by (cases "matches left right keys l") (simp_all add: left_rows_def Let_def)

lemma nrows_merge_outer:
  "nrows (merge_outer left right keys) =
     sum_list (map (\<lambda>l. max 1 (length (matches left right keys l))) (cells left))
     + length (right_only left right keys)"
  by (simp add: merge_outer_def nrows_def Let_def length_concat o_def length_left_rows)

lemma sum_list_max_ge_length: "length xs \<le> sum_list (map (\<lambda>x. max 1 (f x)) xs)"
  by (induction xs) auto

lemma sum_list_le_sum_list_max: "sum_list (map f xs) \<le> sum_list (map (\<lambda>x. max (1::nat) (f x)) xs)"
  by (induction xs) auto

lemma sum_list_max_le: "sum_list (map (\<lambda>x. max (1::nat) (f x)) xs) \<le> length xs + sum_list (map f xs)"
  by (induction xs) auto

lemma filter_mem_le_sum:
  "length (filter (\<lambda>r. kr r \<in> set (map kl ls)) rs)
     \<le> sum_list (map (\<lambda>l. length (filter (\<lambda>r. kr r = kl l) rs)) ls)"
proof (induction ls)
  case Nil
  then show ?case by simp
next
  case (Cons l ls)
  have "length (filter (\<lambda>r. kr r \<in> set (map kl (l # ls))) rs)
      \<le> length (filter (\<lambda>r. kr r = kl l) rs) + length (filter (\<lambda>r. kr r \<in> set (map kl ls)) rs)"
    by (induction rs) auto
  then show ?case using Cons.IH by simp
qed

lemma filter_mem_eq_sum:
  "distinct (map kl ls) \<Longrightarrow>
   sum_list (map (\<lambda>l. length (filter (\<lambda>r. kr r = kl l) rs)) ls)
     = length (filter (\<lambda>r. kr r \<in> set (map kl ls)) rs)"
proof (induction ls)
  case Nil
  then show ?case by simp
next
  case (Cons l ls)
  then have notin: "kl l \<notin> set (map kl ls)" and d: "distinct (map kl ls)" by simp_all
  have "length (filter (\<lambda>r. kr r \<in> set (map kl (l # ls))) rs)
      = length (filter (\<lambda>r. kr r = kl l) rs) + length (filter (\<lambda>r. kr r \<in> set (map kl ls)) rs)"
    using notin by (induction rs) auto
  then show ?case using Cons.IH [OF d] by simp
qed

lemma length_filter_split:
  "length xs = length (filter P xs) + length (filter (\<lambda>x. \<not> P x) xs)"
  by (induction xs) auto

lemma distinct_filter_eq_le1:
  "distinct (map f xs) \<Longrightarrow> length (filter (\<lambda>x. f x = v) xs) \<le> 1"
proof (induction xs)
  case Nil
  then show ?case by simp
next
  case (Cons x xs)
  show ?case
  proof (cases "f x = v")
    case True
    then have "v \<notin> f ` set xs" using Cons.prems by auto
    then have "filter (\<lambda>x. f x = v) xs = []" by (auto simp: filter_empty_conv)
    then show ?thesis using True by simp
  next
    case False
    then show ?thesis using Cons by simp
  qed
qed

lemma sum_matches_ge_matched:
  "length (filter (\<lambda>r. key_of right keys r \<in> set (map (key_of left keys) (cells left))) (cells right))
     \<le> sum_list (map (\<lambda>l. length (matches left right keys l)) (cells left))"
  unfolding matches_def by (rule filter_mem_le_sum)

lemma nrows_right_split:
  "nrows right =
     length (filter (\<lambda>r. key_of right keys r \<in> set (map (key_of left keys) (cells left))) (cells right))
     + length (right_only left right keys)"
  unfolding right_only_def
  using length_filter_split [of "cells right"
      "\<lambda>r. key_of right keys r \<in> set (map (key_of left keys) (cells left))"]
  by (simp add: length_cells)

lemma merge_outer_ge_left: "nrows left \<le> nrows (merge_outer left right keys)"
  using sum_list_max_ge_length [of "cells left" "\<lambda>l. length (matches left right keys l)"]
  by (simp add: nrows_merge_outer length_cells)

lemma merge_outer_ge_right: "nrows right \<le> nrows (merge_outer left right keys)"
proof -
  have "sum_list (map (\<lambda>l. length (matches left right keys l)) (cells left))
      \<le> sum_list (map (\<lambda>l. max 1 (length (matches left right keys l))) (cells left))"
    by (rule sum_list_le_sum_list_max)
  then show ?thesis
    using sum_matches_ge_matched [of right keys left] nrows_right_split [of right keys left]
    by (simp add: nrows_merge_outer)
qed

lemma merge_outer_le_sum_right_distinct:
  assumes "distinct (map (key_of right keys) (cells right))"
  shows "nrows (merge_outer left right keys) \<le> nrows left + nrows right"
proof -
  have "max 1 (length (matches left right keys l)) = 1" for l
    using distinct_filter_eq_le1 [OF assms, of "key_of left keys l"]
    by (simp add: matches_def max_def)
  then have "sum_list (map (\<lambda>l. max 1 (length (matches left right keys l))) (cells left))
      = length (cells left)"
    by (simp add: sum_list_triv)
  moreover have "length (right_only left right keys) \<le> length (cells right)"
    by (simp add: right_only_def)
  ultimately show ?thesis
    using nrows_merge_outer [of left right keys] by (simp add: length_cells)
qed

lemma merge_outer_le_sum_left_distinct:
  assumes "distinct (map (key_of left keys) (cells left))"
  shows "nrows (merge_outer left right keys) \<le> nrows left + nrows right"
proof -
  have "sum_list (map (\<lambda>l. length (matches left right keys l)) (cells left))
      = length (filter (\<lambda>r. key_of right keys r \<in> set (map (key_of left keys) (cells left))) (cells right))"
    unfolding matches_def using assms by (rule filter_mem_eq_sum)
  moreover have "sum_list (map (\<lambda>l. max 1 (length (matches left right keys l))) (cells left))
      \<le> length (cells left) + sum_list (map (\<lambda>l. length (matches left right keys l)) (cells left))"
    by (rule sum_list_max_le)
  ultimately show ?thesis
    using nrows_right_split [of right keys left]
    by (simp add: nrows_merge_outer length_cells)
qed

lemma merge_step_keys: "step_keys mode a b \<noteq> [] \<Longrightarrow> merge_step mode a b = merge_outer a b (step_keys mode a b)"
  by (simp add: merge_step_def Let_def)

lemma merge_step_no_keys: "step_keys mode a b = [] \<Longrightarrow> merge_step mode a b = concat_axis1 a b"
  by (simp add: merge_step_def Let_def)

lemma merge_step_ge_left: "nrows a \<le> nrows (merge_step mode a b)"
  by (cases "step_keys mode a b = []")
    (simp_all add: merge_step_keys merge_step_no_keys nrows_concat_axis1 merge_outer_ge_left)

lemma merge_loop_append:
  "merge_loop mode acc (xs @ ys) = merge_loop mode (merge_loop mode acc xs) ys"
  by (induction xs arbitrary: acc) auto

lemma merge_loop_ge: "nrows acc \<le> nrows (merge_loop mode acc parts)"
proof (induction parts arbitrary: acc)
  case Nil
  then show ?case by simp
next
  case (Cons p ps)
  have "nrows acc \<le> nrows (merge_step mode acc p)" by (rule merge_step_ge_left)
  also have "\<dots> \<le> nrows (merge_loop mode (merge_step mode acc p) ps)" by (rule Cons.IH)
  finally show ?case by simp
qed



text \<open>
  Claim C1, as the code has it.  At a fold step with a non-empty key list the result
  of the outer join has at least as many rows as the larger input.  It has at most
  as many rows as both inputs together when, on at least one side, no two rows have
  the same key; rows with equal keys on both sides are paired in every combination.
\<close>

theorem outer_join_row_bounds:
  "step_keys mode combined part \<noteq> [] \<longrightarrow>
     max (nrows combined) (nrows part) \<le> nrows (merge_step mode combined part) \<and>
     (distinct (map (key_of combined (step_keys mode combined part)) (cells combined)) \<or>
      distinct (map (key_of part (step_keys mode combined part)) (cells part)) \<longrightarrow>
        nrows (merge_step mode combined part) \<le> nrows combined + nrows part)"
proof (intro impI conjI)
  assume k: "step_keys mode combined part \<noteq> []"
  show "max (nrows combined) (nrows part) \<le> nrows (merge_step mode combined part)"
    using merge_outer_ge_left [of combined part "step_keys mode combined part"]
      merge_outer_ge_right [of part combined "step_keys mode combined part"]
    by (simp add: merge_step_keys [OF k])
  assume "distinct (map (key_of combined (step_keys mode combined part)) (cells combined)) \<or>
      distinct (map (key_of part (step_keys mode combined part)) (cells part))"
  then show "nrows (merge_step mode combined part) \<le> nrows combined + nrows part"
    using merge_outer_le_sum_left_distinct [of combined "step_keys mode combined part" part]
      merge_outer_le_sum_right_distinct [of part "step_keys mode combined part" combined]
    by (auto simp: merge_step_keys [OF k])
qed

theorem outer_join_row_bounds_witness:
  "step_keys ''ITEM only'' items_a items_c \<noteq> [] \<and>
   distinct (map (key_of items_c (step_keys ''ITEM only'' items_a items_c)) (cells items_c)) \<and>
   nrows items_a = 2 \<and> nrows items_c = 3 \<and>
   max (nrows items_a) (nrows items_c) \<le> nrows (merge_step ''ITEM only'' items_a items_c) \<and>
   nrows (merge_step ''ITEM only'' items_a items_c) \<le> nrows items_a + nrows items_c"
proof -
  have k: "step_keys ''ITEM only'' items_a items_c \<noteq> []"
    unfolding items_a_def items_c_def by code_simp
  have d: "distinct (map (key_of items_c (step_keys ''ITEM only'' items_a items_c)) (cells items_c))"
    unfolding items_a_def items_c_def by code_simp
  have n: "nrows items_a = 2" "nrows items_c = 3"
    by (simp_all add: nrows_def items_a_def items_c_def)
  note t = outer_join_row_bounds [of "''ITEM only''" items_a items_c, THEN mp, OF k]
  show ?thesis
    using k d n t [THEN conjunct1] t [THEN conjunct2, THEN mp, OF disjI2, OF d] by simp
qed


text \<open>
  Claim C1 as stated fails: two rows and three rows that all carry the item number 1
  join to six rows, more than the five rows of both inputs together.
\<close>

theorem outer_join_sum_bound_counterexample:
  "step_keys ''ITEM only'' items_a items_b \<noteq> [] \<and>
   nrows items_a = 2 \<and> nrows items_b = 3 \<and>
   nrows (merge_step ''ITEM only'' items_a items_b) = 6 \<and>
   \<not> nrows (merge_step ''ITEM only'' items_a items_b) \<le> nrows items_a + nrows items_b"
  unfolding items_a_def items_b_def by code_simp












text \<open>
  Claim C2.  The row count never decreases along the fold: one step, join or
  concatenation, returns at least as many rows as the accumulator it was given; the
  accumulator after \<open>j\<close> steps has at most as many rows as after \<open>j + d\<close> steps; and the
  final table has at least as many rows as the first frame.
\<close>

theorem fold_rows_monotone:
  "nrows combined \<le> nrows (merge_step mode combined part) \<and>
   nrows (merge_loop mode first (take j rest)) \<le> nrows (merge_loop mode first (take (j + d) rest)) \<and>
   nrows first \<le> nrows (merge_loop mode first rest)"
proof (intro conjI)
  show "nrows combined \<le> nrows (merge_step mode combined part)" by (rule merge_step_ge_left)
  have "take (j + d) rest = take j rest @ take d (drop j rest)" by (rule take_add)
  then show "nrows (merge_loop mode first (take j rest)) \<le> nrows (merge_loop mode first (take (j + d) rest))"
    by (simp add: merge_loop_append merge_loop_ge)
  show "nrows first \<le> nrows (merge_loop mode first rest)" by (rule merge_loop_ge)
qed

section \<open>The loading loop\<close>

lemma frames_loop_acc:
  "frames_loop rc re i fs (msgs, frames) =
     (msgs @ fst (frames_loop rc re i fs ([], [])), frames @ snd (frames_loop rc re i fs ([], [])))"
proof (induction fs arbitrary: i msgs frames)
  case Nil
  then show ?case by simp
next
  case (Cons f fs)
  obtain m df where l: "load_table rc re f = (m, df)" by (cases "load_table rc re f")
  show ?case
  proof (cases "df_empty df")
    case True
    then show ?thesis
      using Cons.IH [of "Suc i" "msgs @ m" frames] Cons.IH [of "Suc i" m "[]"]
      by (simp add: l)
  next
    case False
    then show ?thesis
      using Cons.IH [of "Suc i" "msgs @ m" "frames @ [standardize i df]"]
        Cons.IH [of "Suc i" m "[standardize i df]"]
      by (simp add: l)
  qed
qed

lemma frames_loop_append:
  "frames_loop rc re i (xs @ ys) st = frames_loop rc re (i + length xs) ys (frames_loop rc re i xs st)"
proof (induction xs arbitrary: i st)
  case Nil
  then show ?case by simp
next
  case (Cons x xs)
  obtain msgs frames where st: "st = (msgs, frames)" by (cases st)
  obtain m df where l: "load_table rc re x = (m, df)" by (cases "load_table rc re x")
  show ?case using Cons.IH [of "Suc i"] by (simp add: st l)
qed

lemma frames_loop_msgs:
  "fst (frames_loop rc re i fs ([], [])) = concat (map (\<lambda>f. fst (load_table rc re f)) fs)"
proof (induction fs arbitrary: i)
  case Nil
  then show ?case by simp
next
  case (Cons f fs)
  obtain m df where l: "load_table rc re f = (m, df)" by (cases "load_table rc re f")
  show ?case
    using frames_loop_acc [of rc re "Suc i" fs m "[]"]
      frames_loop_acc [of rc re "Suc i" fs m "[standardize i df]"] Cons.IH [of "Suc i"]
    by (simp add: l)
qed

lemma frames_loop_frames:
  "snd (frames_loop rc re i fs ([], [])) =
     map (\<lambda>(k, df). standardize k df)
       (filter (\<lambda>(k, df). \<not> df_empty df)
         (zip [i ..< i + length fs] (map (\<lambda>f. snd (load_table rc re f)) fs)))"
proof (induction fs arbitrary: i)
  case Nil
  then show ?case by simp
next
  case (Cons f fs)
  obtain m df where l: "load_table rc re f = (m, df)" by (cases "load_table rc re f")
  have "i < i + length (f # fs)" by simp
  then have "[i ..< i + length (f # fs)] = i # [Suc i ..< i + length (f # fs)]"
    by (rule upt_conv_Cons)
  moreover have "i + length (f # fs) = Suc i + length fs" by simp
  ultimately have u: "[i ..< i + length (f # fs)] = i # [Suc i ..< Suc i + length fs]"
    by (simp only:)
  show ?case
    using frames_loop_acc [of rc re "Suc i" fs m "[]"]
      frames_loop_acc [of rc re "Suc i" fs m "[standardize i df]"] Cons.IH [of "Suc i"]
    unfolding u by (simp add: l)
qed

lemma load_table_raises:
  assumes "(if suffix ''.csv'' (lower (name f)) then rc f else re f) = Inl e"
  shows "load_table rc re f = ([Error (''Could not read '' @ name f @ '': '' @ e)], DataFrame)"
  using assms by (simp add: load_table_def)

lemma df_empty_DataFrame: "df_empty DataFrame"
  by (simp add: df_empty_def DataFrame_def)

lemma frames_loop_skip:
  assumes "df_empty (snd (load_table rc re f))"
  shows "snd (frames_loop rc re i (before @ f # after) ([], [])) =
     snd (frames_loop rc re i before ([], []))
     @ snd (frames_loop rc re (i + length before + 1) after ([], []))"
proof -
  obtain m df where l: "load_table rc re f = (m, df)" by (cases "load_table rc re f")
  obtain ms fr where b: "frames_loop rc re i before ([], []) = (ms, fr)"
    by (cases "frames_loop rc re i before ([], [])")
  have e: "df_empty df" using assms l by simp
  show ?thesis
    using frames_loop_acc [of rc re "Suc (i + length before)" after "ms @ m" fr] e
    by (simp add: frames_loop_append b l)
qed


lemma merge_contractors_msgs:
  "fst (merge_contractors rc re files mode) =
     fst (frames_loop rc re 1 files ([], []))
     @ (if snd (frames_loop rc re 1 files ([], [])) = [] then [Warning ''No valid files to merge!''] else [])"
  by (cases "frames_loop rc re 1 files ([], [])")
    (auto simp: merge_contractors_def split: list.splits)

lemma merge_contractors_table:
  "snd (merge_contractors rc re files mode) =
     (case snd (frames_loop rc re 1 files ([], [])) of
        [] \<Rightarrow> DataFrame | first # rest \<Rightarrow> merge_loop mode first rest)"
  by (cases "frames_loop rc re 1 files ([], [])")
    (auto simp: merge_contractors_def split: list.splits)


text \<open>
  Claim C7.  When the parser chosen by the file's extension raises with text \<open>e\<close>,
  \<open>load_table\<close> shows the error \<open>Could not read <name>: e\<close> and returns the table with
  no columns and no rows.  \<open>merge_contractors\<close> shows that error, adds no frame for the
  file and goes on: its frames are those of the files before it and those of the files
  after it, each at its own upload position, and the result is the fold over them.
\<close>

theorem load_failure_skipped:
  "(if suffix ''.csv'' (lower (name f)) then read_csv f else read_excel f) = Inl e \<longrightarrow>
     load_table read_csv read_excel f =
       ([Error (''Could not read '' @ name f @ '': '' @ e)], \<lparr>columns = [], rows = []\<rparr>) \<and>
     snd (frames_loop read_csv read_excel 1 (before @ f # after) ([], [])) =
       snd (frames_loop read_csv read_excel 1 before ([], []))
       @ snd (frames_loop read_csv read_excel (length before + 2) after ([], [])) \<and>
     Error (''Could not read '' @ name f @ '': '' @ e)
       \<in> set (fst (merge_contractors read_csv read_excel (before @ f # after) mode)) \<and>
     snd (merge_contractors read_csv read_excel (before @ f # after) mode) =
       (case snd (frames_loop read_csv read_excel 1 before ([], []))
             @ snd (frames_loop read_csv read_excel (length before + 2) after ([], [])) of
          [] \<Rightarrow> DataFrame
        | first # rest \<Rightarrow> merge_loop mode first rest)"
proof (intro impI)
  assume r: "(if suffix ''.csv'' (lower (name f)) then read_csv f else read_excel f) = Inl e"
  have l: "load_table read_csv read_excel f =
      ([Error (''Could not read '' @ name f @ '': '' @ e)], DataFrame)"
    using r by (rule load_table_raises)
  then have em: "df_empty (snd (load_table read_csv read_excel f))"
    by (simp add: df_empty_DataFrame)
  have fr: "snd (frames_loop read_csv read_excel 1 (before @ f # after) ([], [])) =
       snd (frames_loop read_csv read_excel 1 before ([], []))
       @ snd (frames_loop read_csv read_excel (length before + 2) after ([], []))"
    using frames_loop_skip [OF em, of 1 before after] by simp
  have "Error (''Could not read '' @ name f @ '': '' @ e)
      \<in> set (fst (frames_loop read_csv read_excel 1 (before @ f # after) ([], [])))"
    by (simp add: frames_loop_msgs l)
  then have ms: "Error (''Could not read '' @ name f @ '': '' @ e)
       \<in> set (fst (merge_contractors read_csv read_excel (before @ f # after) mode))"
    by (simp add: merge_contractors_msgs)
  show "load_table read_csv read_excel f =
       ([Error (''Could not read '' @ name f @ '': '' @ e)], \<lparr>columns = [], rows = []\<rparr>) \<and>
     snd (frames_loop read_csv read_excel 1 (before @ f # after) ([], [])) =
       snd (frames_loop read_csv read_excel 1 before ([], []))
       @ snd (frames_loop read_csv read_excel (length before + 2) after ([], [])) \<and>
     Error (''Could not read '' @ name f @ '': '' @ e)
       \<in> set (fst (merge_contractors read_csv read_excel (before @ f # after) mode)) \<and>
     snd (merge_contractors read_csv read_excel (before @ f # after) mode) =
       (case snd (frames_loop read_csv read_excel 1 before ([], []))
             @ snd (frames_loop read_csv read_excel (length before + 2) after ([], [])) of
          [] \<Rightarrow> DataFrame
        | first # rest \<Rightarrow> merge_loop mode first rest)"
    using l fr ms by (simp add: merge_contractors_table DataFrame_def)
qed

theorem load_failure_skipped_witness:
  "(if suffix ''.csv'' (lower (name file_b)) then demo_read_csv file_b else demo_read_excel file_b)
     = Inl ''File is not a zip file'' \<and>
   load_table demo_read_csv demo_read_excel file_b =
     ([Error ''Could not read b.xlsx: File is not a zip file''], \<lparr>columns = [], rows = []\<rparr>) \<and>
   Error ''Could not read b.xlsx: File is not a zip file''
     \<in> set (fst (merge_contractors demo_read_csv demo_read_excel [file_a, file_b, file_c] ''ITEM only'')) \<and>
   snd (merge_contractors demo_read_csv demo_read_excel [file_a, file_b, file_c] ''ITEM only'') =
     \<lparr>columns = [''ITEM'', ''Contractor_1_RATE'', ''Contractor_3_RATE''],
      rows = [(Num 0, [Str ''1.1'', Num 10, Num 10])]\<rparr>"
proof -
  have r: "(if suffix ''.csv'' (lower (name file_b)) then demo_read_csv file_b else demo_read_excel file_b)
     = Inl ''File is not a zip file''"
    unfolding file_b_def by code_simp
  have n: "''Could not read '' @ name file_b @ '': '' @ ''File is not a zip file''
     = ''Could not read b.xlsx: File is not a zip file''"
    by (simp add: file_b_def)
  have v: "(case snd (frames_loop demo_read_csv demo_read_excel 1 [file_a] ([], []))
             @ snd (frames_loop demo_read_csv demo_read_excel (length [file_a] + 2) [file_c] ([], [])) of
          [] \<Rightarrow> DataFrame
        | first # rest \<Rightarrow> merge_loop ''ITEM only'' first rest)
     = \<lparr>columns = [''ITEM'', ''Contractor_1_RATE'', ''Contractor_3_RATE''],
      rows = [(Num 0, [Str ''1.1'', Num 10, Num 10])]\<rparr>"
    unfolding file_a_def file_c_def by code_simp
  note t = load_failure_skipped [of file_b demo_read_csv demo_read_excel "''File is not a zip file''"
      "[file_a]" "[file_c]" "''ITEM only''", THEN mp, OF r]
  show ?thesis
    using r t [THEN conjunct1] t [THEN conjunct2, THEN conjunct2, THEN conjunct1]
      t [THEN conjunct2, THEN conjunct2, THEN conjunct2]
    unfolding n v by simp
qed


text \<open>
  Claim C8.  When every uploaded file fails to load or loads as an empty table,
  \<open>merge_contractors\<close> shows the load errors followed by the warning
  \<open>No valid files to merge!\<close> and returns the table with no columns and no rows; the
  run then shows \<open>No data to display.\<close> and produces no table.
\<close>

theorem no_valid_files:
  "(\<forall>f\<in>set files. df_empty (snd (load_table read_csv read_excel f))) \<longrightarrow>
     merge_contractors read_csv read_excel files mode =
       (concat (map (\<lambda>f. fst (load_table read_csv read_excel f)) files)
          @ [Warning ''No valid files to merge!''],
        \<lparr>columns = [], rows = []\<rparr>) \<and>
     run_comparison read_csv read_excel files mode =
       (concat (map (\<lambda>f. fst (load_table read_csv read_excel f)) files)
          @ [Warning ''No valid files to merge!'', Warning ''No data to display.''],
        None)"
proof (intro impI)
  assume a: "\<forall>f\<in>set files. df_empty (snd (load_table read_csv read_excel f))"
  have "filter (\<lambda>(k, df). \<not> df_empty df)
      (zip [1 ..< 1 + length files] (map (\<lambda>f. snd (load_table read_csv read_excel f)) files)) = []"
    using a by (auto simp: filter_empty_conv dest!: set_zip_rightD)
  then have fr: "snd (frames_loop read_csv read_excel 1 files ([], [])) = []"
    by (simp add: frames_loop_frames)
  have m: "merge_contractors read_csv read_excel files mode =
       (concat (map (\<lambda>f. fst (load_table read_csv read_excel f)) files)
          @ [Warning ''No valid files to merge!''], DataFrame)"
    using fr merge_contractors_msgs [of read_csv read_excel files mode]
      merge_contractors_table [of read_csv read_excel files mode]
    by (simp add: frames_loop_msgs prod_eq_iff)
  show "merge_contractors read_csv read_excel files mode =
       (concat (map (\<lambda>f. fst (load_table read_csv read_excel f)) files)
          @ [Warning ''No valid files to merge!''],
        \<lparr>columns = [], rows = []\<rparr>) \<and>
     run_comparison read_csv read_excel files mode =
       (concat (map (\<lambda>f. fst (load_table read_csv read_excel f)) files)
          @ [Warning ''No valid files to merge!'', Warning ''No data to display.''],
        None)"
    using df_empty_DataFrame by (simp add: run_comparison_def m) (simp add: DataFrame_def)
qed

theorem no_valid_files_witness:
  "df_empty (snd (load_table demo_read_csv demo_read_excel file_b)) \<and>
   df_empty (snd (load_table demo_read_csv demo_read_excel file_d)) \<and>
   merge_contractors demo_read_csv demo_read_excel [file_b, file_d] ''ITEM + DESCRIPTION'' =
     ([Error ''Could not read b.xlsx: File is not a zip file'',
       Error ''Could not read d.csv: No columns to parse from file'',
       Warning ''No valid files to merge!''], \<lparr>columns = [], rows = []\<rparr>) \<and>
   run_comparison demo_read_csv demo_read_excel [file_b, file_d] ''ITEM + DESCRIPTION'' =
     ([Error ''Could not read b.xlsx: File is not a zip file'',
       Error ''Could not read d.csv: No columns to parse from file'',
       Warning ''No valid files to merge!'', Warning ''No data to display.''], None)"
proof -
  have b: "df_empty (snd (load_table demo_read_csv demo_read_excel file_b))"
    unfolding file_b_def by code_simp
  have d: "df_empty (snd (load_table demo_read_csv demo_read_excel file_d))"
    unfolding file_d_def by code_simp
  have a: "\<forall>f\<in>set [file_b, file_d]. df_empty (snd (load_table demo_read_csv demo_read_excel f))"
    using b d by simp
  have ms: "concat (map (\<lambda>f. fst (load_table demo_read_csv demo_read_excel f)) [file_b, file_d])
    = [Error ''Could not read b.xlsx: File is not a zip file'',
       Error ''Could not read d.csv: No columns to parse from file'']"
    unfolding file_b_def file_d_def by code_simp
  note t = no_valid_files [of "[file_b, file_d]" demo_read_csv demo_read_excel
      "''ITEM + DESCRIPTION''", THEN mp, OF a]
  show ?thesis using b d t unfolding ms by simp
qed


text \<open>
  Claim C9.  The frames of \<open>merge_contractors\<close> are the non-empty loaded tables, each
  normalised with its 1-based position among all uploads, so the frame of the file at
  position \<open>p + 1\<close> is \<open>standardize (p + 1)\<close> of its table, whose \<open>RATE\<close> and \<open>AMOUNT\<close>
  columns are named \<open>Contractor_(p+1)_RATE\<close> and \<open>Contractor_(p+1)_AMOUNT\<close>.  A failed
  or empty upload uses up its position: the later files are not renumbered.
\<close>

theorem contractor_index_is_upload_position:
  "snd (frames_loop read_csv read_excel 1 files ([], [])) =
     map (\<lambda>(k, df). standardize k df)
       (filter (\<lambda>(k, df). \<not> df_empty df)
         (zip [1 ..< 1 + length files] (map (\<lambda>f. snd (load_table read_csv read_excel f)) files))) \<and>
   (\<forall>p<length files. \<not> df_empty (snd (load_table read_csv read_excel (files ! p))) \<longrightarrow>
      standardize (p + 1) (snd (load_table read_csv read_excel (files ! p)))
        \<in> set (snd (frames_loop read_csv read_excel 1 files ([], [])))) \<and>
   (\<forall>j<length (columns df).
      (columns df ! j = ''RATE'' \<longrightarrow>
         columns (standardize (p + 1) df) ! j = ''Contractor_'' @ str_nat (p + 1) @ ''_RATE'') \<and>
      (columns df ! j = ''AMOUNT'' \<longrightarrow>
         columns (standardize (p + 1) df) ! j = ''Contractor_'' @ str_nat (p + 1) @ ''_AMOUNT''))"
proof (intro conjI allI impI)
  show "snd (frames_loop read_csv read_excel 1 files ([], [])) =
     map (\<lambda>(k, df). standardize k df)
       (filter (\<lambda>(k, df). \<not> df_empty df)
         (zip [1 ..< 1 + length files] (map (\<lambda>f. snd (load_table read_csv read_excel f)) files)))"
    by (rule frames_loop_frames)
next
  fix p
  assume p: "p < length files"
    and ne: "\<not> df_empty (snd (load_table read_csv read_excel (files ! p)))"
  let ?z = "zip [1 ..< 1 + length files] (map (\<lambda>f. snd (load_table read_csv read_excel f)) files)"
  have "[1 ..< 1 + length files] ! p = 1 + p"
    using p by (intro nth_upt) simp
  moreover have lz: "p < length ?z" using p by simp
  ultimately have "?z ! p = (p + 1, snd (load_table read_csv read_excel (files ! p)))"
    using p by (simp only: nth_zip length_upt length_map nth_map add_diff_cancel_left' add.commute)
  moreover note lz
  ultimately have "(p + 1, snd (load_table read_csv read_excel (files ! p))) \<in> set ?z"
    by (metis nth_mem)
  then have "(p + 1, snd (load_table read_csv read_excel (files ! p)))
      \<in> set (filter (\<lambda>(k, df). \<not> df_empty df) ?z)"
    using ne by simp
  then have "(\<lambda>(k, df). standardize k df) (p + 1, snd (load_table read_csv read_excel (files ! p)))
      \<in> set (map (\<lambda>(k, df). standardize k df) (filter (\<lambda>(k, df). \<not> df_empty df) ?z))"
    unfolding set_map by (rule imageI)
  then show "standardize (p + 1) (snd (load_table read_csv read_excel (files ! p)))
        \<in> set (snd (frames_loop read_csv read_excel 1 files ([], [])))"
    unfolding frames_loop_frames by simp
next
  fix j
  assume "j < length (columns df)" "columns df ! j = ''RATE''"
  then show "columns (standardize (p + 1) df) ! j = ''Contractor_'' @ str_nat (p + 1) @ ''_RATE''"
    by (simp add: columns_standardize tag_def normalize_name_def)
next
  fix j
  assume "j < length (columns df)" "columns df ! j = ''AMOUNT''"
  then show "columns (standardize (p + 1) df) ! j = ''Contractor_'' @ str_nat (p + 1) @ ''_AMOUNT''"
    using not_rate_like_AMOUNT by (simp add: columns_standardize tag_def normalize_name_def)
qed

theorem contractor_index_is_upload_position_witness:
  "(2::nat) < length [file_a, file_b, file_c] \<and>
   df_empty (snd (load_table demo_read_csv demo_read_excel ([file_a, file_b, file_c] ! 1))) \<and>
   \<not> df_empty (snd (load_table demo_read_csv demo_read_excel ([file_a, file_b, file_c] ! 2))) \<and>
   \<lparr>columns = [''ITEM'', ''Contractor_3_RATE''], rows = [(Num 0, [Str ''1.1'', Num 10])]\<rparr>
     \<in> set (snd (frames_loop demo_read_csv demo_read_excel 1 [file_a, file_b, file_c] ([], []))) \<and>
   map columns (snd (frames_loop demo_read_csv demo_read_excel 1 [file_a, file_b, file_c] ([], [])))
     = [[''ITEM'', ''Contractor_1_RATE''], [''ITEM'', ''Contractor_3_RATE'']] \<and>
   columns boq_usd ! 3 = ''AMOUNT'' \<and>
   columns (standardize 3 boq_usd) ! 3 = ''Contractor_3_AMOUNT''"
proof -
  have l: "(2::nat) < length [file_a, file_b, file_c]" by simp
  have e: "df_empty (snd (load_table demo_read_csv demo_read_excel ([file_a, file_b, file_c] ! 1)))"
    unfolding file_a_def file_b_def file_c_def by code_simp
  have ne: "\<not> df_empty (snd (load_table demo_read_csv demo_read_excel ([file_a, file_b, file_c] ! 2)))"
    unfolding file_a_def file_b_def file_c_def by code_simp
  have s: "standardize (2 + 1) (snd (load_table demo_read_csv demo_read_excel ([file_a, file_b, file_c] ! 2)))
    = \<lparr>columns = [''ITEM'', ''Contractor_3_RATE''], rows = [(Num 0, [Str ''1.1'', Num 10])]\<rparr>"
    unfolding file_a_def file_b_def file_c_def by code_simp
  have c: "map columns (map (\<lambda>(k, df). standardize k df)
       (filter (\<lambda>(k, df). \<not> df_empty df)
         (zip [1 ..< 1 + length [file_a, file_b, file_c]]
           (map (\<lambda>f. snd (load_table demo_read_csv demo_read_excel f)) [file_a, file_b, file_c]))))
     = [[''ITEM'', ''Contractor_1_RATE''], [''ITEM'', ''Contractor_3_RATE'']]"
    unfolding file_a_def file_b_def file_c_def by code_simp
  have l3: "(3::nat) < length (columns boq_usd)" and c3: "columns boq_usd ! 3 = ''AMOUNT''"
    by (simp_all add: boq_usd_def)
  have n3: "''Contractor_'' @ str_nat (2 + 1) @ ''_AMOUNT'' = ''Contractor_3_AMOUNT''"
    by code_simp
  note t = contractor_index_is_upload_position
    [of demo_read_csv demo_read_excel "[file_a, file_b, file_c]" boq_usd 2]
  have "\<lparr>columns = [''ITEM'', ''Contractor_3_RATE''], rows = [(Num 0, [Str ''1.1'', Num 10])]\<rparr>
     \<in> set (snd (frames_loop demo_read_csv demo_read_excel 1 [file_a, file_b, file_c] ([], [])))"
    using t [THEN conjunct2, THEN conjunct1, THEN spec, of 2, THEN mp, OF l, THEN mp, OF ne]
    unfolding s .
  moreover have "map columns (snd (frames_loop demo_read_csv demo_read_excel 1 [file_a, file_b, file_c] ([], [])))
     = [[''ITEM'', ''Contractor_1_RATE''], [''ITEM'', ''Contractor_3_RATE'']]"
    using t [THEN conjunct1] c by simp
  moreover have "columns (standardize 3 boq_usd) ! 3 = ''Contractor_3_AMOUNT''"
    using t [THEN conjunct2, THEN conjunct2, THEN spec, of 3, THEN mp, OF l3, THEN conjunct2,
        THEN mp, OF c3] unfolding n3 by simp
  ultimately show ?thesis using l e ne c3 by simp
qed

end
